theory Spec2Isabelle
  imports Complex_Main
begin

section \<open>Order book and time-weighted average price\<close>

text \<open>
  The program keeps the live orders of one instrument in a class \<open>OrderBook\<close> (two
  \<open>std::map\<close>s kept in step) and integrates the best price over time in a class
  \<open>TWAP\<close>. Both classes are embedded here as records with explicit state passing: a
  member function that mutates its object takes the old state and returns the new one.

  The \<open>int\<close> of the source (order ids, times, counts) is modelled as an unbounded
  integer. The model agrees with the source wherever no operation on \<open>int\<close> overflows
  its 32 bits, as with the times the source expects: milliseconds within one trading day
  that do not decrease. Signed overflow is undefined in C++; \<open>in_int32\<close> below names the
  range, and a statement about a single call in an arbitrary state takes the difference
  and the sum that the call computes to lie in it.
\<close>

subsection \<open>The type \<open>double\<close>\<close>

text \<open>
  A \<open>double\<close> is a quiet NaN, an infinity or a finite value. Every finite \<open>double\<close> is a
  rational number, so the finite values are carried by \<open>rat\<close>. The sign of zero is not
  represented: the program only divides by values converted from \<open>int\<close>, whose zero is
  \<open>+0.0\<close>, and never prints or compares a zero's sign.
\<close>

datatype double = NaN | PInf | NInf | Fin rat

fun isnan :: "double \<Rightarrow> bool" where
  "isnan NaN = True"
| "isnan _ = False"

subsection \<open>\<open>std::map\<close>\<close>

text \<open>
  A \<open>std::map\<close> holds at most one entry per key and iterates in ascending key order. It is
  modelled by the list of its entries in iteration order. \<open>m_find\<close> is \<open>find\<close> (\<open>None\<close>
  for \<open>end()\<close>); \<open>m_insert\<close> is \<open>insert\<close>, returning the map, the value at the returned
  iterator and the flag \<open>second\<close>; \<open>m_assign\<close> writes \<open>it->second\<close>; \<open>m_erase\<close> is
  \<open>erase\<close> of the entry with the given key (there is at most one); \<open>m_rbegin\<close> is
  \<open>rbegin()\<close> (\<open>None\<close> for \<open>rend()\<close>).
\<close>

type_synonym ('k, 'v) std_map = "('k \<times> 'v) list"

fun m_find :: "'k \<Rightarrow> ('k, 'v) std_map \<Rightarrow> 'v option" where
  "m_find k [] = None"
| "m_find k (e # m) = (if fst e = k then Some (snd e) else m_find k m)"

fun m_emplace :: "'k::linorder \<Rightarrow> 'v \<Rightarrow> ('k, 'v) std_map \<Rightarrow> ('k, 'v) std_map" where
  "m_emplace k v [] = [(k, v)]"
| "m_emplace k v (e # m) = (if k < fst e then (k, v) # e # m else e # m_emplace k v m)"

definition m_insert ::
  "'k::linorder \<Rightarrow> 'v \<Rightarrow> ('k, 'v) std_map \<Rightarrow> ('k, 'v) std_map \<times> 'v \<times> bool" where
  "m_insert k v m =
     (case m_find k m of
        Some w \<Rightarrow> (m, w, False)
      | None \<Rightarrow> (m_emplace k v m, v, True))"

fun m_assign :: "'k \<Rightarrow> 'v \<Rightarrow> ('k, 'v) std_map \<Rightarrow> ('k, 'v) std_map" where
  "m_assign k v [] = []"
| "m_assign k v (e # m) = (if fst e = k then (k, v) # m else e # m_assign k v m)"

definition m_erase :: "'k \<Rightarrow> ('k, 'v) std_map \<Rightarrow> ('k, 'v) std_map" where
  "m_erase k m = filter (\<lambda>e. fst e \<noteq> k) m"

definition m_rbegin :: "('k, 'v) std_map \<Rightarrow> ('k \<times> 'v) option" where
  "m_rbegin m = (if m = [] then None else Some (last m))"

text \<open>The representation invariant of a \<open>std::map\<close>: keys strictly ascending.\<close>

definition ascending :: "('k::linorder, 'v) std_map \<Rightarrow> bool" where
  "ascending m = sorted_wrt (<) (map fst m)"

subsection \<open>\<open>OrderBook\<close>\<close>

text \<open>
  Prices stored in the book are finite numbers (\<open>rat\<close>), as the prices of orders are. A
  NaN is not a legal key of a \<open>std::map<double, int>\<close>, because \<open><\<close> on it is no strict
  weak ordering.
  \<open>erase_order\<close> dereferences \<open>price_it\<close> without testing it against \<open>end()\<close>; the model
  returns \<open>None\<close> where that dereference would be undefined, and \<open>Some\<close> of the new book
  otherwise.
\<close>

record order_book =
  order_price_map :: "(int, rat) std_map"
  price_count_map :: "(rat, int) std_map"

definition OrderBook :: order_book where
  "OrderBook = \<lparr>order_price_map = [], price_count_map = []\<rparr>"

definition insert_order :: "int \<Rightarrow> rat \<Rightarrow> order_book \<Rightarrow> order_book" where
  "insert_order order_id price b =
     (let (opm, _, order_new) = m_insert order_id price (order_price_map b) in
      if \<not> order_new then b
      else
        let (pcm, cnt, price_new) = m_insert price 1 (price_count_map b) in
        if \<not> price_new
        then \<lparr>order_price_map = opm, price_count_map = m_assign price (cnt + 1) pcm\<rparr>
        else \<lparr>order_price_map = opm, price_count_map = pcm\<rparr>)"

definition erase_order :: "int \<Rightarrow> order_book \<Rightarrow> order_book option" where
  "erase_order order_id b =
     (case m_find order_id (order_price_map b) of
        None \<Rightarrow> Some b
      | Some price \<Rightarrow>
          let opm = m_erase order_id (order_price_map b) in
          (case m_find price (price_count_map b) of
             None \<Rightarrow> None
           | Some cnt \<Rightarrow>
               let pcm = m_assign price (cnt - 1) (price_count_map b) in
               Some \<lparr>order_price_map = opm,
                     price_count_map = (if cnt - 1 \<le> 0 then m_erase price pcm else pcm)\<rparr>))"

definition max_price :: "order_book \<Rightarrow> double" where
  "max_price b =
     (case m_rbegin (price_count_map b) of
        None \<Rightarrow> NaN
      | Some e \<Rightarrow> Fin (fst e))"

text \<open>Sequences of calls on a book, stopping where a call would be undefined.\<close>

datatype call = Insert int rat | Erase int

fun apply_call :: "call \<Rightarrow> order_book \<Rightarrow> order_book option" where
  "apply_call (Insert order_id price) b = Some (insert_order order_id price b)"
| "apply_call (Erase order_id) b = erase_order order_id b"

fun run :: "call list \<Rightarrow> order_book \<Rightarrow> order_book option" where
  "run [] b = Some b"
| "run (c # cs) b = (case apply_call c b of None \<Rightarrow> None | Some b' \<Rightarrow> run cs b')"

text \<open>
  The quantities the invariant speaks of: the number of live orders at a price, the number
  of live orders, and the sum of the stored counts.
\<close>

definition orders_at :: "rat \<Rightarrow> order_book \<Rightarrow> nat" where
  "orders_at p b = length (filter (\<lambda>e. snd e = p) (order_price_map b))"

definition live_orders :: "order_book \<Rightarrow> nat" where
  "live_orders b = length (order_price_map b)"

definition count_sum :: "order_book \<Rightarrow> int" where
  "count_sum b = sum_list (map snd (price_count_map b))"

definition consistent :: "order_book \<Rightarrow> bool" where
  "consistent b \<longleftrightarrow>
     ascending (order_price_map b) \<and> ascending (price_count_map b) \<and>
     (\<forall>p. m_find p (price_count_map b) =
            (if orders_at p b = 0 then None else Some (int (orders_at p b)))) \<and>
     count_sum b = int (live_orders b)"

subsection \<open>Arithmetic on \<open>double\<close>\<close>

text \<open>
  An arithmetic operation on finite operands yields the exact result, rounded. The rounding
  is a parameter \<open>rnd\<close> of every operation, so that a statement can be made for every
  rounding, for exact arithmetic (\<open>exact\<close>, no rounding at all) or for the rounding of
  IEEE 754 double precision (\<open>binary64\<close>: 53 significant bits, nearest value, ties to the
  even significand, gradual underflow below \<open>2^-1022\<close>, overflow to an infinity from
  \<open>2^1024\<close>). Every operation of the source's expression rounds on its own: no product
  is fused into the sum and no intermediate value is kept in a wider format. The cases
  with a NaN, an infinity or a zero divisor follow IEEE 754.
\<close>

type_synonym rounding = "rat \<Rightarrow> double"

definition exact :: rounding where
  "exact x = Fin x"

text \<open>
  \<open>scale2 x k\<close> is \<open>x * 2^k\<close>; \<open>bit_length n\<close> is the number of binary digits of a
  positive \<open>n\<close>; \<open>ilog2 x\<close> is the exponent \<open>e\<close> with \<open>2^e \<le> x < 2^(e+1)\<close> of a positive
  \<open>x\<close>; \<open>round_half_even\<close> rounds to the nearest integer, a tie to the even one. In
  \<open>binary64\<close>, \<open>e\<close> is the exponent of the result before rounding (at least \<open>-1022\<close>, below
  which the spacing of the values stays \<open>2^-1074\<close>) and \<open>m\<close> the rounded significand in units
  of \<open>2^(e-52)\<close>; a significand that rounds up to \<open>2^53\<close> carries into the next exponent, and
  an exponent of 1024 or more is an overflow.
\<close>

definition scale2 :: "rat \<Rightarrow> int \<Rightarrow> rat" where
  "scale2 x k = (if 0 \<le> k then x * of_int (2 ^ nat k) else x / of_int (2 ^ nat (- k)))"

function bit_length :: "int \<Rightarrow> int" where
  "bit_length n = (if n \<le> 0 then 0 else 1 + bit_length (n div 2))"
  by pat_completeness auto
termination
  by (relation "measure nat") auto

declare bit_length.simps [simp del]

definition ilog2 :: "rat \<Rightarrow> int" where
  "ilog2 x =
     (let (a, b) = quotient_of x;
          d = bit_length a - bit_length b
      in if scale2 1 d \<le> x then d else d - 1)"

definition round_half_even :: "rat \<Rightarrow> int" where
  "round_half_even y =
     (let f = \<lfloor>y\<rfloor>; d = y - of_int f
      in if d < 1 / 2 then f
         else if 1 / 2 < d then f + 1
         else if even f then f else f + 1)"

definition binary64 :: rounding where
  "binary64 x =
     (if x = 0 then Fin 0
      else
        let e = max (ilog2 \<bar>x\<bar>) (- 1022);
            m = round_half_even (scale2 x (52 - e))
        in if 1024 \<le> (if 2 ^ 53 \<le> \<bar>m\<bar> then e + 1 else e)
           then (if 0 < x then PInf else NInf)
           else Fin (scale2 (of_int m) (e - 52)))"


fun dsgn :: "double \<Rightarrow> rat" where
  "dsgn NaN = 0"
| "dsgn PInf = 1"
| "dsgn NInf = - 1"
| "dsgn (Fin a) = sgn a"

definition inf_of_sign :: "rat \<Rightarrow> double" where
  "inf_of_sign s = (if s = 0 then NaN else if 0 < s then PInf else NInf)"

fun dadd :: "rounding \<Rightarrow> double \<Rightarrow> double \<Rightarrow> double" where
  "dadd rnd (Fin a) (Fin b) = rnd (a + b)"
| "dadd rnd NaN y = NaN"
| "dadd rnd x NaN = NaN"
| "dadd rnd PInf NInf = NaN"
| "dadd rnd NInf PInf = NaN"
| "dadd rnd PInf y = PInf"
| "dadd rnd x PInf = PInf"
| "dadd rnd NInf y = NInf"
| "dadd rnd x NInf = NInf"

fun dmul :: "rounding \<Rightarrow> double \<Rightarrow> double \<Rightarrow> double" where
  "dmul rnd (Fin a) (Fin b) = rnd (a * b)"
| "dmul rnd NaN y = NaN"
| "dmul rnd x NaN = NaN"
| "dmul rnd x y = inf_of_sign (dsgn x * dsgn y)"

fun ddiv :: "rounding \<Rightarrow> double \<Rightarrow> double \<Rightarrow> double" where
  "ddiv rnd (Fin a) (Fin b) = (if b = 0 then inf_of_sign (sgn a) else rnd (a / b))"
| "ddiv rnd NaN y = NaN"
| "ddiv rnd x NaN = NaN"
| "ddiv rnd (Fin a) y = Fin 0"
| "ddiv rnd x (Fin b) = (if b < 0 then inf_of_sign (- dsgn x) else x)"
| "ddiv rnd x y = NaN"

text \<open>
  Conversions between \<open>int\<close> and \<open>double\<close>. An \<open>int\<close> of the source has 32 bits, so its
  conversion to \<open>double\<close> is exact. The conversion back truncates towards zero; the program
  applies it only to a value that was converted from an \<open>int\<close>.
\<close>

definition double_of_int :: "int \<Rightarrow> double" where
  "double_of_int n = Fin (of_int n)"

fun int_of_double :: "double \<Rightarrow> int" where
  "int_of_double (Fin x) = (if 0 \<le> x then \<lfloor>x\<rfloor> else \<lceil>x\<rceil>)"
| "int_of_double _ = 0"

subsection \<open>\<open>TWAP\<close>\<close>

text \<open>
  The fields are those of the class, without the trailing underscore. The member function
  \<open>avg_price()\<close> returns the field \<open>avg_price_\<close>: it is the selector \<open>avg_price\<close> of the
  record.
\<close>

record twap =
  last_price :: double
  last_time :: int
  avg_price :: double
  total_time :: int

definition TWAP :: twap where
  "TWAP = \<lparr>last_price = NaN, last_time = 0, avg_price = NaN, total_time = 0\<rparr>"

definition next_price :: "rounding \<Rightarrow> int \<Rightarrow> double \<Rightarrow> twap \<Rightarrow> twap" where
  "next_price rnd time price s =
     (let s1 =
        (if \<not> isnan (last_price s) then
           let add_time = time - last_time s in
           if 0 < total_time s then
             let new_total_time = double_of_int (total_time s + add_time) in
             s\<lparr>avg_price :=
                  dadd rnd
                    (dmul rnd (ddiv rnd (avg_price s) new_total_time)
                       (double_of_int (total_time s)))
                    (dmul rnd (ddiv rnd (last_price s) new_total_time)
                       (double_of_int add_time)),
               total_time := int_of_double new_total_time\<rparr>
           else s\<lparr>avg_price := last_price s, total_time := add_time\<rparr>
         else s)
      in s1\<lparr>last_price := price, last_time := time\<rparr>)"

text \<open>
  Feeding a sequence of samples \<open>(time, price)\<close> to the accumulator; the averages read
  after each call; and \<open>branch_taken\<close>, whether some call of the sequence found a recorded
  price that is not NaN and so ran the body of \<open>if (!isnan(last_price_))\<close>. The last is
  a fact about the control flow only; what the body does to the average and to the elapsed
  time is stated separately.
\<close>

type_synonym sample = "int \<times> double"

fun feed :: "rounding \<Rightarrow> sample list \<Rightarrow> twap \<Rightarrow> twap" where
  "feed rnd [] s = s"
| "feed rnd (x # xs) s = feed rnd xs (next_price rnd (fst x) (snd x) s)"

fun averages :: "rounding \<Rightarrow> sample list \<Rightarrow> twap \<Rightarrow> double list" where
  "averages rnd [] s = []"
| "averages rnd (x # xs) s =
     (let s' = next_price rnd (fst x) (snd x) s in avg_price s' # averages rnd xs s')"



text \<open>The range of the 32-bit \<open>int\<close> of the source.\<close>

definition in_int32 :: "int \<Rightarrow> bool" where
  "in_int32 n \<longleftrightarrow> - (2 ^ 31) \<le> n \<and> n < 2 ^ 31"

text \<open>
  The body of \<open>main()\<close>: six order events, each followed by \<open>next_price\<close> at the time
  of the event with the best price of the book, and by a printed row of the time, the best
  price and the average.
\<close>

fun drive ::
  "rounding \<Rightarrow> (call \<times> int) list \<Rightarrow> order_book \<Rightarrow> twap \<Rightarrow> (int \<times> double \<times> double) list option" where
  "drive rnd [] b s = Some []"
| "drive rnd (x # xs) b s =
     (case apply_call (fst x) b of
        None \<Rightarrow> None
      | Some b' \<Rightarrow>
          let s' = next_price rnd (snd x) (max_price b') s in
          (case drive rnd xs b' s' of
             None \<Rightarrow> None
           | Some rows \<Rightarrow> Some ((snd x, max_price b', avg_price s') # rows)))"

definition main :: "rounding \<Rightarrow> (int \<times> double \<times> double) list option" where
  "main rnd =
     drive rnd
       [(Insert 100 10, 1000), (Insert 101 13, 2000), (Insert 102 13, 2200),
        (Erase 101, 2400), (Erase 102, 2500), (Erase 100, 4000)]
       OrderBook TWAP"

text \<open>
  The weighted average as the specification words it, for comparison with the expression
  of the source: \<open>running_average * (elapsed_time / new_total) + previous_price * (dt / new_total)\<close>
  with \<open>new_total = elapsed_time + dt\<close>.
\<close>

definition spec_weighted_average :: "rounding \<Rightarrow> double \<Rightarrow> int \<Rightarrow> double \<Rightarrow> int \<Rightarrow> double" where
  "spec_weighted_average rnd running_average elapsed_time previous_price dt =
     (let new_total = double_of_int (elapsed_time + dt) in
      dadd rnd
        (dmul rnd running_average (ddiv rnd (double_of_int elapsed_time) new_total))
        (dmul rnd previous_price (ddiv rnd (double_of_int dt) new_total)))"




subsection \<open>Doubles and times in range\<close>






section \<open>Properties of the \<open>std::map\<close> model\<close>

lemma m_find_None_iff: "m_find k m = None \<longleftrightarrow> k \<notin> fst ` set m"
  by (induction m) auto

lemma m_find_Some_mem: "m_find k m = Some v \<Longrightarrow> (k, v) \<in> set m"
  by (induction m) (auto split: if_splits)

lemma m_find_emplace:
  "m_find k m = None \<Longrightarrow> m_find k' (m_emplace k v m) = (if k' = k then Some v else m_find k' m)"
  by (induction m) auto

lemma set_emplace: "set (m_emplace k v m) = insert (k, v) (set m)"
  by (induction m) auto

lemma ascending_emplace:
  "ascending m \<Longrightarrow> m_find k m = None \<Longrightarrow> ascending (m_emplace k v m)"
proof (induction m)
  case Nil
  then show ?case by (simp add: ascending_def)
next
  case (Cons e m)
  from Cons.prems have ne: "fst e \<noteq> k" and absent: "m_find k m = None"
    by (auto split: if_splits)
  from Cons.prems have tl: "ascending m" and hd: "\<forall>y\<in>set (map fst m). fst e < y"
    by (auto simp: ascending_def)
  show ?case
  proof (cases "k < fst e")
    case True
    with Cons.prems hd show ?thesis
      by (auto simp: ascending_def)
  next
    case False
    with ne have "fst e < k" by simp
    moreover have "ascending (m_emplace k v m)"
      using Cons.IH tl absent by simp
    ultimately show ?thesis
      using False hd by (auto simp: ascending_def set_emplace)
  qed
qed

lemma length_emplace: "length (m_emplace k v m) = Suc (length m)"
  by (induction m) auto

lemma filter_emplace:
  "length (filter P (m_emplace k v m)) = length (filter P m) + (if P (k, v) then 1 else 0)"
  by (induction m) auto

lemma sum_emplace: "sum_list (map snd (m_emplace k (v::int) m)) = v + sum_list (map snd m)"
  by (induction m) auto

lemma keys_assign: "map fst (m_assign k v m) = map fst m"
  by (induction m) auto

lemma ascending_assign: "ascending (m_assign k v m) = ascending m"
  by (simp add: ascending_def keys_assign)

lemma m_find_assign:
  "m_find k' (m_assign k v m) = (if k' = k \<and> m_find k m \<noteq> None then Some v else m_find k' m)"
  by (induction m) auto

lemma sum_assign:
  "m_find k m = Some c \<Longrightarrow> sum_list (map snd (m_assign k (v::int) m)) = sum_list (map snd m) - c + v"
  by (induction m) (auto split: if_splits)

lemma m_find_erase: "m_find k' (m_erase k m) = (if k' = k then None else m_find k' m)"
  by (induction m) (auto simp: m_erase_def)

lemma ascending_erase: "ascending m \<Longrightarrow> ascending (m_erase k m)"
  by (induction m) (auto simp: m_erase_def ascending_def)

lemma erase_absent: "m_find k m = None \<Longrightarrow> m_erase k m = m"
  by (induction m) (auto simp: m_erase_def split: if_splits)

lemma ascending_tail_absent: "ascending (e # m) \<Longrightarrow> m_find (fst e) m = None"
  by (auto simp: ascending_def m_find_None_iff)

lemma sum_erase:
  "ascending m \<Longrightarrow> m_find k m = Some c \<Longrightarrow> sum_list (map snd (m_erase k m)) = sum_list (map snd m) - (c::int)"
proof (induction m)
  case Nil
  then show ?case by simp
next
  case (Cons e m)
  have tl: "ascending m" using Cons.prems(1) by (simp add: ascending_def)
  show ?case
  proof (cases "fst e = k")
    case True
    then have "m_erase k m = m"
      using ascending_tail_absent[OF Cons.prems(1)] by (simp add: erase_absent)
    with True Cons.prems(2) show ?thesis by (simp add: m_erase_def)
  next
    case False
    with Cons.prems(2) have "m_find k m = Some c" by simp
    from Cons.IH[OF tl this] False show ?thesis by (simp add: m_erase_def)
  qed
qed

lemma filter_erase:
  "ascending m \<Longrightarrow> m_find k m = Some v \<Longrightarrow>
   length (filter P (m_erase k m)) + (if P (k, v) then 1 else 0) = length (filter P m)"
proof (induction m)
  case Nil
  then show ?case by simp
next
  case (Cons e m)
  have tl: "ascending m" using Cons.prems(1) by (simp add: ascending_def)
  show ?case
  proof (cases "fst e = k")
    case True
    then have "m_erase k m = m"
      using ascending_tail_absent[OF Cons.prems(1)] by (simp add: erase_absent)
    moreover from True Cons.prems(2) have "e = (k, v)" by (cases e) simp
    ultimately show ?thesis by (simp add: m_erase_def)
  next
    case False
    with Cons.prems(2) have "m_find k m = Some v" by simp
    from Cons.IH[OF tl this] False show ?thesis by (simp add: m_erase_def)
  qed
qed

lemma length_erase:
  "ascending m \<Longrightarrow> m_find k m = Some v \<Longrightarrow> Suc (length (m_erase k m)) = length m"
  using filter_erase[of m k v "\<lambda>_. True"] by simp

section \<open>The invariant of the order book\<close>

text \<open>
  \<open>consistent\<close> holds of the empty book and every call preserves it; on a consistent
  book \<open>erase_order\<close> never reaches the undefined dereference.
\<close>

lemma consistent_OrderBook: "consistent OrderBook"
  by (simp add: consistent_def OrderBook_def ascending_def orders_at_def count_sum_def live_orders_def)

lemma orders_at_pos: "(k, p) \<in> set (order_price_map b) \<Longrightarrow> 0 < orders_at p b"
  by (force simp: orders_at_def filter_empty_conv)

lemma consistent_insert_order:
  assumes "consistent b"
  shows "consistent (insert_order order_id price b)"
proof (cases "m_find order_id (order_price_map b)")
  case (Some w)
  with assms show ?thesis by (simp add: insert_order_def m_insert_def)
next
  case None
  let ?opm = "m_emplace order_id price (order_price_map b)"
  have asc: "ascending ?opm"
    using assms None by (simp add: consistent_def ascending_emplace)
  have at: "length (filter (\<lambda>e. snd e = p) ?opm) = orders_at p b + (if price = p then 1 else 0)" for p
    by (simp add: filter_emplace orders_at_def)
  have len: "length ?opm = Suc (live_orders b)"
    by (simp add: length_emplace live_orders_def)
  have inv: "m_find p (price_count_map b) =
      (if orders_at p b = 0 then None else Some (int (orders_at p b)))" for p
    using assms by (simp add: consistent_def)
  have sum: "sum_list (map snd (price_count_map b)) = int (live_orders b)"
    using assms by (simp add: consistent_def count_sum_def)
  have ascp: "ascending (price_count_map b)"
    using assms by (simp add: consistent_def)
  show ?thesis
  proof (cases "m_find price (price_count_map b)")
    case absent: None
    then have zero: "orders_at price b = 0"
      using inv[of price] by (simp split: if_splits)
    have "insert_order order_id price b =
        \<lparr>order_price_map = ?opm, price_count_map = m_emplace price 1 (price_count_map b)\<rparr>"
      using None absent by (simp add: insert_order_def m_insert_def)
    then show ?thesis
      using asc ascp absent zero inv sum len
      by (simp add: consistent_def orders_at_def live_orders_def count_sum_def
          ascending_emplace m_find_emplace filter_emplace sum_emplace length_emplace)
  next
    case (Some c)
    then have c: "c = int (orders_at price b)" and pos: "orders_at price b \<noteq> 0"
      using inv[of price] by (simp_all split: if_splits)
    have "insert_order order_id price b =
        \<lparr>order_price_map = ?opm, price_count_map = m_assign price (c + 1) (price_count_map b)\<rparr>"
      using None Some by (simp add: insert_order_def m_insert_def)
    then show ?thesis
      using asc ascp Some c pos inv sum len
      by (simp add: consistent_def orders_at_def live_orders_def count_sum_def
          ascending_assign m_find_assign filter_emplace sum_assign length_emplace)
  qed
qed

lemma consistent_erase_order:
  assumes "consistent b"
  shows "\<exists>b'. erase_order order_id b = Some b' \<and> consistent b'"
proof (cases "m_find order_id (order_price_map b)")
  case None
  with assms show ?thesis by (simp add: erase_order_def)
next
  case (Some price)
  let ?opm = "m_erase order_id (order_price_map b)"
  have asco: "ascending (order_price_map b)" and ascp: "ascending (price_count_map b)"
    using assms by (simp_all add: consistent_def)
  have inv: "m_find p (price_count_map b) =
      (if orders_at p b = 0 then None else Some (int (orders_at p b)))" for p
    using assms by (simp add: consistent_def)
  have sum: "sum_list (map snd (price_count_map b)) = int (live_orders b)"
    using assms by (simp add: consistent_def count_sum_def)
  have pos: "0 < orders_at price b"
    using m_find_Some_mem[OF Some] by (rule orders_at_pos)
  then have cnt: "m_find price (price_count_map b) = Some (int (orders_at price b))"
    using inv[of price] by simp
  have at: "length (filter (\<lambda>e. snd e = p) ?opm) + (if price = p then 1 else 0) = orders_at p b" for p
    using filter_erase[OF asco Some, of "\<lambda>e. snd e = p"] by (simp add: orders_at_def)
  have len: "Suc (length ?opm) = live_orders b"
    using length_erase[OF asco Some] by (simp add: live_orders_def)
  let ?c = "int (orders_at price b)"
  let ?pcm = "m_assign price (?c - 1) (price_count_map b)"
  let ?b' = "\<lparr>order_price_map = ?opm,
               price_count_map = (if ?c - 1 \<le> 0 then m_erase price ?pcm else ?pcm)\<rparr>"
  have res: "erase_order order_id b = Some ?b'"
    using Some cnt by (simp add: erase_order_def Let_def)
  have ascp': "ascending ?pcm" using ascp by (simp add: ascending_assign)
  have find': "m_find price ?pcm = Some (?c - 1)"
    using cnt by (simp add: m_find_assign)
  have sum': "sum_list (map snd ?pcm) = int (live_orders b) - 1"
    using sum_assign[OF cnt, of "?c - 1"] sum by simp
  have "consistent ?b'"
  proof (cases "?c - 1 \<le> 0")
    case True
    then have one: "orders_at price b = 1" using pos by simp
    have s: "sum_list (map snd (m_erase price ?pcm)) = int (live_orders b) - 1"
      using sum_erase[OF ascp' find'] sum' one by simp
    have f: "m_find p (m_erase price ?pcm) =
        (if length (filter (\<lambda>e. snd e = p) ?opm) = 0 then None
         else Some (int (length (filter (\<lambda>e. snd e = p) ?opm))))" for p
      using at[of p] inv[of p] one cnt by (auto simp: m_find_erase m_find_assign)
    show ?thesis
      using True asco ascp' s f len
      by (simp add: consistent_def orders_at_def live_orders_def count_sum_def
          ascending_erase)
  next
    case False
    have f: "m_find p ?pcm =
        (if length (filter (\<lambda>e. snd e = p) ?opm) = 0 then None
         else Some (int (length (filter (\<lambda>e. snd e = p) ?opm))))" for p
      using at[of p] inv[of p] False cnt by (auto simp: m_find_assign)
    show ?thesis
      using False asco ascp' sum' f len
      by (simp add: consistent_def orders_at_def live_orders_def count_sum_def
          ascending_erase)
  qed
  with res show ?thesis by blast
qed

lemma consistent_run:
  "consistent b \<Longrightarrow> \<exists>b'. run cs b = Some b' \<and> consistent b'"
proof (induction cs arbitrary: b)
  case Nil
  then show ?case by simp
next
  case (Cons c cs)
  obtain b1 where b1: "apply_call c b = Some b1" "consistent b1"
  proof (cases c)
    case (Insert i p)
    then show ?thesis using that Cons.prems by (simp add: consistent_insert_order)
  next
    case (Erase i)
    then show ?thesis using that consistent_erase_order[OF Cons.prems, of i] by auto
  qed
  from Cons.IH[OF b1(2)] b1(1) show ?case by simp
qed

section \<open>The best price of a consistent book\<close>

lemma last_key_Max:
  "ascending m \<Longrightarrow> m \<noteq> [] \<Longrightarrow> fst (last m) = Max (fst ` set m)"
proof (induction m)
  case Nil
  then show ?case by simp
next
  case (Cons e m)
  show ?case
  proof (cases "m = []")
    case True
    then show ?thesis by simp
  next
    case False
    have tl: "ascending m" and lt: "\<forall>y\<in>fst ` set m. fst e < y"
      using Cons.prems(1) by (auto simp: ascending_def)
    have "fst (last m) = Max (fst ` set m)"
      using Cons.IH tl False by simp
    moreover have "Max (fst ` set m) \<in> fst ` set m"
      using False by (intro Max_in) auto
    then have "fst e < Max (fst ` set m)"
      using lt by blast
    ultimately show ?thesis
      using False by (auto simp: max_def)
  qed
qed

lemma consistent_keys:
  assumes "consistent b"
  shows "fst ` set (price_count_map b) = snd ` set (order_price_map b)"
proof -
  have "p \<in> fst ` set (price_count_map b) \<longleftrightarrow> p \<in> snd ` set (order_price_map b)" for p
  proof -
    have "p \<in> fst ` set (price_count_map b) \<longleftrightarrow> m_find p (price_count_map b) \<noteq> None"
      by (simp add: m_find_None_iff)
    also have "\<dots> \<longleftrightarrow> orders_at p b \<noteq> 0"
      using assms by (simp add: consistent_def)
    also have "\<dots> \<longleftrightarrow> p \<in> snd ` set (order_price_map b)"
      by (force simp: orders_at_def filter_empty_conv)
    finally show ?thesis .
  qed
  then show ?thesis by blast
qed

lemma max_price_consistent:
  assumes "consistent b"
  shows "max_price b =
    (if order_price_map b = [] then NaN else Fin (Max (snd ` set (order_price_map b))))"
proof -
  have keys: "fst ` set (price_count_map b) = snd ` set (order_price_map b)"
    using assms by (rule consistent_keys)
  then have empty: "price_count_map b = [] \<longleftrightarrow> order_price_map b = []"
    by (metis image_is_empty set_empty)
  have asc: "ascending (price_count_map b)"
    using assms by (simp add: consistent_def)
  show ?thesis
  proof (cases "price_count_map b = []")
    case True
    with empty show ?thesis by (simp add: max_price_def m_rbegin_def)
  next
    case False
    with empty last_key_Max[OF asc False] keys show ?thesis
      by (simp add: max_price_def m_rbegin_def)
  qed
qed

lemma set_insert_order:
  "set (order_price_map (insert_order i p b)) =
     (if i \<in> fst ` set (order_price_map b) then set (order_price_map b)
      else insert (i, p) (set (order_price_map b)))"
proof (cases "m_find i (order_price_map b)")
  case None
  then have "i \<notin> fst ` set (order_price_map b)" by (simp add: m_find_None_iff)
  with None show ?thesis
    by (simp add: insert_order_def m_insert_def set_emplace split: option.splits)
next
  case (Some q)
  then have "i \<in> fst ` set (order_price_map b)"
    using m_find_None_iff[of i "order_price_map b"] by simp
  with Some show ?thesis
    by (simp add: insert_order_def m_insert_def)
qed

lemma set_erase_order:
  "erase_order i b = Some b' \<Longrightarrow>
   set (order_price_map b') = {e \<in> set (order_price_map b). fst e \<noteq> i}"
  by (auto simp: erase_order_def m_erase_def Let_def m_find_None_iff
      split: option.splits)

section \<open>Claims about the order book\<close>

text \<open>
  Claim C2 (dual-map consistency). Every sequence of \<open>insert_order\<close> and \<open>erase_order\<close>
  calls on a fresh \<open>OrderBook\<close> runs to the end without an undefined step, and in the book
  it leaves, every price present in \<open>price_count_map_\<close> carries a count that equals the number
  of entries of \<open>order_price_map_\<close> at that price and is strictly positive, and the counts
  add up to the number of entries of \<open>order_price_map_\<close>.
\<close>

theorem dual_map_consistency:
  "\<exists>b. run cs OrderBook = Some b \<and>
       (\<forall>p c. m_find p (price_count_map b) = Some c \<longrightarrow> c = int (orders_at p b) \<and> 0 < c) \<and>
       count_sum b = int (live_orders b)"
proof -
  obtain b where b: "run cs OrderBook = Some b" "consistent b"
    using consistent_run[OF consistent_OrderBook] by blast
  have "c = int (orders_at p b) \<and> 0 < c" if "m_find p (price_count_map b) = Some c" for p c
    using that b(2) by (auto simp: consistent_def split: if_splits)
  moreover have "count_sum b = int (live_orders b)"
    using b(2) by (simp add: consistent_def)
  ultimately show ?thesis using b(1) by blast
qed

theorem dual_map_consistency_witness:
  "run [Insert 100 10, Insert 101 13, Insert 102 13, Erase 101, Erase 7] OrderBook =
     Some \<lparr>order_price_map = [(100, 10), (102, 13)], price_count_map = [(10, 1), (13, 1)]\<rparr>
   \<and> m_find 13 [(10, 1), (13, 1 :: int)] = Some 1
   \<and> orders_at 13 \<lparr>order_price_map = [(100, 10), (102, 13)], price_count_map = [(10, 1), (13, 1)]\<rparr> = 1
   \<and> count_sum \<lparr>order_price_map = [(100, 10), (102, 13)], price_count_map = [(10, 1), (13, 1)]\<rparr> = 2"
proof -
  let ?cs = "[Insert 100 10, Insert 101 13, Insert 102 13, Erase 101, Erase 7]"
  let ?b = "\<lparr>order_price_map = [(100, 10), (102, 13)], price_count_map = [(10, 1), (13, 1)]\<rparr>"
  have r: "run ?cs OrderBook = Some ?b"
    by (simp add: OrderBook_def insert_order_def erase_order_def m_insert_def m_erase_def)
  have f: "m_find 13 (price_count_map ?b) = Some 1" by simp
  from dual_map_consistency[of ?cs] r
  have "(\<forall>p c. m_find p (price_count_map ?b) = Some c \<longrightarrow> c = int (orders_at p ?b) \<and> 0 < c)"
    and s: "count_sum ?b = int (live_orders ?b)" by auto
  with f have "1 = int (orders_at 13 ?b)" by blast
  with r s show ?thesis by (simp add: live_orders_def)
qed

text \<open>
  Claim C3 (\<open>max_price\<close>). In every book reached from a fresh \<open>OrderBook\<close>, \<open>max_price()\<close>
  returns NaN when there is no live order and otherwise the largest price of a live order,
  which is the largest key of \<open>price_count_map_\<close>. With three orders at 10, 13 and 13 it
  returns 13, and once the two orders at 13 are erased it returns 10.
\<close>

theorem max_price_correct:
  "(run cs OrderBook = Some b \<longrightarrow>
      max_price b = (if live_orders b = 0 then NaN
                     else Fin (Max (snd ` set (order_price_map b)))) \<and>
      max_price b = (if price_count_map b = [] then NaN
                     else Fin (Max (fst ` set (price_count_map b))))) \<and>
   (distinct [i1, i2, i3] \<longrightarrow>
      (\<exists>b1 b2. run [Insert i1 10, Insert i2 13, Insert i3 13] OrderBook = Some b1 \<and>
         max_price b1 = Fin 13 \<and>
         run [Erase i2, Erase i3] b1 = Some b2 \<and> max_price b2 = Fin 10))"
proof (intro conjI impI)
  assume r: "run cs OrderBook = Some b"
  then have c: "consistent b"
    using consistent_run[OF consistent_OrderBook, of cs] by simp
  show "max_price b = (if live_orders b = 0 then NaN
                       else Fin (Max (snd ` set (order_price_map b))))"
    using max_price_consistent[OF c] by (simp add: live_orders_def)
  have "price_count_map b = [] \<longleftrightarrow> order_price_map b = []"
    using consistent_keys[OF c] by (metis image_is_empty set_empty)
  then show "max_price b = (if price_count_map b = [] then NaN
                       else Fin (Max (fst ` set (price_count_map b))))"
    using max_price_consistent[OF c] consistent_keys[OF c] by simp
next
  assume d: "distinct [i1, i2, i3]"
  let ?b1 = "insert_order i3 13 (insert_order i2 13 (insert_order i1 10 OrderBook))"
  have c1: "consistent ?b1"
    by (intro consistent_insert_order consistent_OrderBook)
  have s1: "set (order_price_map ?b1) = {(i1, 10), (i2, 13), (i3, 13)}"
    using d by (auto simp: set_insert_order OrderBook_def)
  have r1: "run [Insert i1 10, Insert i2 13, Insert i3 13] OrderBook = Some ?b1"
    by simp
  have m1: "max_price ?b1 = Fin 13"
    using s1 by (simp add: max_price_consistent[OF c1] flip: set_empty)
  obtain b' where e1: "erase_order i2 ?b1 = Some b'" and c': "consistent b'"
    using consistent_erase_order[OF c1] by blast
  obtain b2 where e2: "erase_order i3 b' = Some b2" and c2: "consistent b2"
    using consistent_erase_order[OF c'] by blast
  have "set (order_price_map b') = {(i1, 10), (i3, 13)}"
    using set_erase_order[OF e1] s1 d by auto
  then have s2: "set (order_price_map b2) = {(i1, 10)}"
    using set_erase_order[OF e2] d by auto
  have r2: "run [Erase i2, Erase i3] ?b1 = Some b2"
    using e1 e2 by simp
  have m2: "max_price b2 = Fin 10"
    using s2 by (simp add: max_price_consistent[OF c2] flip: set_empty)
  from r1 m1 r2 m2
  show "\<exists>b1 b2. run [Insert i1 10, Insert i2 13, Insert i3 13] OrderBook = Some b1 \<and>
         max_price b1 = Fin 13 \<and>
         run [Erase i2, Erase i3] b1 = Some b2 \<and> max_price b2 = Fin 10"
    by blast
qed

theorem max_price_correct_witness:
  "run [Insert 100 10, Insert 101 13, Erase 101] OrderBook =
     Some \<lparr>order_price_map = [(100, 10)], price_count_map = [(10, 1)]\<rparr> \<and>
   max_price \<lparr>order_price_map = [(100, 10)], price_count_map = [(10, 1)]\<rparr> = Fin 10 \<and>
   max_price OrderBook = NaN \<and>
   distinct [100, 101, 102 :: int] \<and>
   (\<exists>b1 b2. run [Insert 100 10, Insert 101 13, Insert 102 13] OrderBook = Some b1 \<and>
         max_price b1 = Fin 13 \<and>
         run [Erase 101, Erase 102] b1 = Some b2 \<and> max_price b2 = Fin 10)"
proof -
  let ?cs = "[Insert 100 10, Insert 101 13, Erase 101]"
  let ?b = "\<lparr>order_price_map = [(100, 10)], price_count_map = [(10, 1)]\<rparr>"
  have r: "run ?cs OrderBook = Some ?b"
    by (simp add: OrderBook_def insert_order_def erase_order_def m_insert_def m_erase_def)
  have r0: "run [] OrderBook = Some OrderBook" by simp
  have d: "distinct [100, 101, 102 :: int]" by simp
  have "max_price ?b = Fin (Max (snd ` set (order_price_map ?b)))"
    using max_price_correct[of ?cs ?b 100 101 102] r by (simp add: live_orders_def)
  then have m: "max_price ?b = Fin 10" by simp
  have m0: "max_price OrderBook = NaN"
    using max_price_correct[of "[]" OrderBook 100 101 102] r0
    by (simp add: live_orders_def OrderBook_def)
  from max_price_correct[of ?cs ?b 100 101 102] d
  have "\<exists>b1 b2. run [Insert 100 10, Insert 101 13, Insert 102 13] OrderBook = Some b1 \<and>
         max_price b1 = Fin 13 \<and>
         run [Erase 101, Erase 102] b1 = Some b2 \<and> max_price b2 = Fin 10"
    by blast
  with r m m0 d show ?thesis by blast
qed

text \<open>
  Claim C7 (first price wins), as amended. In every book, after \<open>insert_order(id, p)\<close> a
  further \<open>insert_order(id, p2)\<close> changes neither map. The price of the order is then the
  price \<open>id\<close> had before the first call when it was already live, and \<open>p\<close> when it was not.
\<close>

theorem insert_first_price_wins:
  "insert_order order_id p2 (insert_order order_id p b) = insert_order order_id p b \<and>
   m_find order_id (order_price_map (insert_order order_id p b)) =
     (case m_find order_id (order_price_map b) of None \<Rightarrow> Some p | Some q \<Rightarrow> Some q)"
proof -
  have f: "m_find order_id (order_price_map (insert_order order_id p b)) =
     (case m_find order_id (order_price_map b) of None \<Rightarrow> Some p | Some q \<Rightarrow> Some q)"
    by (simp add: insert_order_def m_insert_def m_find_emplace split: option.splits)
  then have "m_find order_id (order_price_map (insert_order order_id p b)) \<noteq> None"
    by (simp split: option.splits)
  then have "insert_order order_id p2 (insert_order order_id p b) = insert_order order_id p b"
    by (auto simp: insert_order_def[of order_id p2] m_insert_def)
  with f show ?thesis by simp
qed

text \<open>
  The claim as stated fails in a book where the id is already live: order 1 is live at 5,
  and after \<open>insert_order(1, 7)\<close> and \<open>insert_order(1, 9)\<close> its price is 5, not 7.
\<close>

theorem insert_first_price_wins_counterexample:
  "m_find 1 (order_price_map (insert_order 1 9 (insert_order 1 7 (insert_order 1 5 OrderBook))))
     = Some 5 \<and>
   m_find 1 (order_price_map (insert_order 1 9 (insert_order 1 7 (insert_order 1 5 OrderBook))))
     \<noteq> Some 7"
  by (simp add: insert_order_def m_insert_def OrderBook_def)

text \<open>
  Claim C9 (erase of an unknown id). When the id is not among the live orders,
  \<open>erase_order\<close> returns with both maps unchanged and without an undefined step; and
  whenever \<open>erase_order(id)\<close> has run, running it again changes nothing.
\<close>

theorem erase_unknown_noop:
  "(m_find order_id (order_price_map b) = None \<longrightarrow> erase_order order_id b = Some b) \<and>
   (\<forall>b'. erase_order order_id b = Some b' \<longrightarrow> erase_order order_id b' = Some b')"
proof (intro conjI impI allI)
  assume "m_find order_id (order_price_map b) = None"
  then show "erase_order order_id b = Some b" by (simp add: erase_order_def)
next
  fix b' assume "erase_order order_id b = Some b'"
  then have "m_find order_id (order_price_map b') = None"
    by (auto simp: erase_order_def Let_def m_find_erase split: option.splits)
  then show "erase_order order_id b' = Some b'" by (simp add: erase_order_def)
qed

theorem erase_unknown_noop_witness:
  "m_find 7 (order_price_map (insert_order 100 10 OrderBook)) = None \<and>
   erase_order 7 (insert_order 100 10 OrderBook) = Some (insert_order 100 10 OrderBook) \<and>
   erase_order 100 (insert_order 100 10 OrderBook) = Some OrderBook \<and>
   erase_order 100 OrderBook = Some OrderBook"
proof -
  let ?b = "insert_order 100 10 OrderBook"
  have a: "m_find 7 (order_price_map ?b) = None"
    by (simp add: insert_order_def m_insert_def OrderBook_def)
  have e: "erase_order 100 ?b = Some OrderBook"
    by (simp add: insert_order_def erase_order_def m_insert_def m_erase_def OrderBook_def)
  from erase_unknown_noop[of 7 ?b] a have "erase_order 7 ?b = Some ?b" by blast
  moreover from erase_unknown_noop[of 100 ?b] e have "erase_order 100 OrderBook = Some OrderBook"
    by blast
  ultimately show ?thesis using a e by blast
qed

section \<open>Properties of the accumulator\<close>

lemma int_of_double_of_int: "int_of_double (double_of_int n) = n"
  by (simp add: double_of_int_def)



lemma next_price_first:
  "\<not> isnan (last_price s) \<Longrightarrow> total_time s \<le> 0 \<Longrightarrow>
   next_price rnd time price s =
     \<lparr>last_price = price, last_time = time, avg_price = last_price s,
      total_time = time - last_time s\<rparr>"
  by (simp add: next_price_def Let_def)

lemma next_price_fold:
  "\<not> isnan (last_price s) \<Longrightarrow> 0 < total_time s \<Longrightarrow>
   next_price rnd time price s =
     \<lparr>last_price = price, last_time = time,
      avg_price =
        dadd rnd
          (dmul rnd (ddiv rnd (avg_price s) (double_of_int (total_time s + (time - last_time s))))
             (double_of_int (total_time s)))
          (dmul rnd (ddiv rnd (last_price s) (double_of_int (total_time s + (time - last_time s))))
             (double_of_int (time - last_time s))),
      total_time = total_time s + (time - last_time s)\<rparr>"
  by (simp add: next_price_def Let_def int_of_double_of_int)

lemma code_average_exact:
  assumes "0 < T"
  shows "dadd exact (dmul exact (ddiv exact a (double_of_int (T + d))) (double_of_int T))
                    (dmul exact (ddiv exact l (double_of_int (T + d))) (double_of_int d))
       = spec_weighted_average exact a T l d"
proof -
  have T: "(0::rat) < of_int T" using assms by simp
  show ?thesis
    by (cases a; cases l; cases "T + d = 0"; cases "T + d < 0"; cases "d = 0"; cases "d < 0")
      (use assms in \<open>auto simp: spec_weighted_average_def double_of_int_def exact_def inf_of_sign_def
        Let_def sgn_if zero_less_mult_iff mult_less_0_iff zero_less_divide_iff divide_less_0_iff\<close>)
qed



lemma next_price_last [simp]:
  "last_price (next_price rnd t p s) = p" "last_time (next_price rnd t p s) = t"
  by (simp_all add: next_price_def Let_def)












text \<open>
  Why the statements below take prices that are numbers or NaN: an infinite price, which
  is not NaN, turns a defined average back into NaN when its interval has length zero
  (\<open>inf * 0\<close>), under every rounding.
\<close>

lemma dadd_NaN_right: "dadd rnd x NaN = NaN"
  by (cases x) simp_all

lemma infinite_price_undefines:
  "avg_price (feed rnd [(0, Fin 5), (1, PInf)] TWAP) = Fin 5"
  "avg_price (feed rnd [(0, Fin 5), (1, PInf), (1, Fin 5)] TWAP) = NaN"
  by (simp_all add: next_price_def TWAP_def double_of_int_def inf_of_sign_def dadd_NaN_right)

section \<open>Averages in exact arithmetic\<close>








section \<open>Bounds on the rounding of double precision\<close>












section \<open>Averages under the rounding of double precision\<close>














section \<open>The rounding of double precision on known values\<close>

text \<open>
  \<open>binary64\<close> on values whose doubles are known: 0.1, 1/3, 0.3 and -0.1; the ties
  \<open>2^53 + 1\<close> (down to the even \<open>2^53\<close>) and \<open>2^53 + 3\<close> (up to \<open>2^53 + 4\<close>); and 11.5,
  which is a double.
\<close>

lemma binary64_known_values:
  "binary64 (1 / 10) = Fin (3602879701896397 / 36028797018963968)"
  "binary64 (1 / 3) = Fin (6004799503160661 / 18014398509481984)"
  "binary64 (3 / 10) = Fin (5404319552844595 / 18014398509481984)"
  "binary64 (- 1 / 10) = Fin (- (3602879701896397 / 36028797018963968))"
  "binary64 (2 ^ 53 + 1) = Fin (2 ^ 53)"
  "binary64 (2 ^ 53 + 3) = Fin (2 ^ 53 + 4)"
  "binary64 (23 / 2) = Fin (23 / 2)"
  by code_simp+

section \<open>The rows printed by the program\<close>

text \<open>
  \<open>main()\<close> runs without an undefined step and prints, in double arithmetic, the averages
  NaN, 10, 10.5, 10.857142857142858, 11.000000000000002 and 10.5 (shown by the stream with
  six significant digits as \<open>nan\<close>, 10, 10.5, 10.8571, 11 and 10.5).
\<close>

lemma main_rows:
  "main binary64 =
     Some [(1000, Fin 10, NaN), (2000, Fin 13, Fin 10), (2200, Fin 13, Fin (21 / 2)),
           (2400, Fin 13, Fin (3056014032858551 / 281474976710656)),
           (2500, Fin 10, Fin (6192449487634433 / 562949953421312)),
           (4000, NaN, Fin (21 / 2))]"
  by code_simp

lemma main_rows_exact:
  "main exact =
     Some [(1000, Fin 10, NaN), (2000, Fin 13, Fin 10), (2200, Fin 13, Fin (21 / 2)),
           (2400, Fin 13, Fin (76 / 7)), (2500, Fin 10, Fin 11), (4000, NaN, Fin (21 / 2))]"
  by code_simp

section \<open>Claims about the accumulator\<close>

text \<open>
  Claim C4 (gap property). In every state whose recorded price is NaN, \<open>next_price\<close> leaves
  \<open>avg_price_\<close> and \<open>total_time_\<close> as they are and only sets \<open>last_time_\<close> and
  \<open>last_price_\<close> to the new time and price, whatever the rounding.
\<close>

theorem gap_property:
  "isnan (last_price s) \<Longrightarrow>
   next_price rnd time price s = s\<lparr>last_price := price, last_time := time\<rparr> \<and>
   avg_price (next_price rnd time price s) = avg_price s \<and>
   total_time (next_price rnd time price s) = total_time s"
  by (simp add: next_price_def)

theorem gap_property_witness:
  "isnan (last_price \<lparr>last_price = NaN, last_time = 2500, avg_price = Fin 12, total_time = 400\<rparr>) \<and>
   next_price binary64 4000 (Fin 10)
       \<lparr>last_price = NaN, last_time = 2500, avg_price = Fin 12, total_time = 400\<rparr>
     = \<lparr>last_price = Fin 10, last_time = 4000, avg_price = Fin 12, total_time = 400\<rparr>"
  using gap_property[of "\<lparr>last_price = NaN, last_time = 2500, avg_price = Fin 12, total_time = 400\<rparr>"
      binary64 4000 "Fin 10"]
  by simp

text \<open>
  Claim C1 (fold step), as amended. In every state whose recorded price is not NaN, where
  the time, the recorded time, the elapsed time \<open>total_time_\<close>, \<open>dt = time - last_time_\<close>
  and, where the source computes it, \<open>total_time_ + dt\<close> are in the range of the 32-bit
  \<open>int\<close>: when \<open>total_time_\<close> is zero (or negative: the source tests \<open>total_time_ > 0\<close>) the
  average becomes the recorded price and \<open>total_time_\<close> becomes \<open>dt\<close>; when \<open>total_time_\<close>
  is positive it becomes \<open>total_time_ + dt\<close> and the average becomes
  \<open>avg / new * total + last / new * dt\<close> with \<open>new = total + dt\<close>, each operation rounded,
  which in exact arithmetic is the weighted average of the specification. The new time and
  price are recorded in both cases.
\<close>

theorem fold_step:
  assumes "\<not> isnan (last_price s)"
    and "in_int32 time" and "in_int32 (last_time s)" and "in_int32 (total_time s)"
    and "in_int32 (time - last_time s)"
    and "0 < total_time s \<longrightarrow> in_int32 (total_time s + (time - last_time s))"
  shows "last_price (next_price rnd time price s) = price \<and>
   last_time (next_price rnd time price s) = time \<and>
   (total_time s \<le> 0 \<longrightarrow>
      avg_price (next_price rnd time price s) = last_price s \<and>
      total_time (next_price rnd time price s) = time - last_time s) \<and>
   (0 < total_time s \<longrightarrow>
      total_time (next_price rnd time price s) = total_time s + (time - last_time s) \<and>
      avg_price (next_price rnd time price s) =
        dadd rnd
          (dmul rnd
             (ddiv rnd (avg_price s) (double_of_int (total_time s + (time - last_time s))))
             (double_of_int (total_time s)))
          (dmul rnd
             (ddiv rnd (last_price s) (double_of_int (total_time s + (time - last_time s))))
             (double_of_int (time - last_time s))) \<and>
      avg_price (next_price exact time price s) =
        spec_weighted_average exact (avg_price s) (total_time s) (last_price s)
          (time - last_time s))"
  using assms(1) by (simp add: next_price_first next_price_fold code_average_exact)

theorem fold_step_witness:
  "\<not> isnan (last_price \<lparr>last_price = Fin 13, last_time = 2200, avg_price = Fin 10, total_time = 200\<rparr>) \<and>
   in_int32 2400 \<and> in_int32 2200 \<and> in_int32 200 \<and> in_int32 (2400 - 2200) \<and>
   (0 :: int) < 200 \<and> in_int32 (200 + (2400 - 2200)) \<and>
   total_time (next_price binary64 2400 (Fin 13)
     \<lparr>last_price = Fin 13, last_time = 2200, avg_price = Fin 10, total_time = 200\<rparr>) = 400 \<and>
   avg_price (next_price exact 2400 (Fin 13)
     \<lparr>last_price = Fin 13, last_time = 2200, avg_price = Fin 10, total_time = 200\<rparr>) = Fin (23 / 2) \<and>
   \<not> isnan (last_price \<lparr>last_price = Fin 10, last_time = 2000, avg_price = NaN, total_time = 0\<rparr>) \<and>
   in_int32 2000 \<and> in_int32 0 \<and> in_int32 (2200 - 2000) \<and>
   avg_price (next_price binary64 2200 (Fin 13)
     \<lparr>last_price = Fin 10, last_time = 2000, avg_price = NaN, total_time = 0\<rparr>) = Fin 10 \<and>
   total_time (next_price binary64 2200 (Fin 13)
     \<lparr>last_price = Fin 10, last_time = 2000, avg_price = NaN, total_time = 0\<rparr>) = 200"
proof -
  let ?s = "\<lparr>last_price = Fin 13, last_time = 2200, avg_price = Fin 10, total_time = 200\<rparr>"
  let ?init = "\<lparr>last_price = Fin 10, last_time = 2000, avg_price = NaN, total_time = 0\<rparr>"
  have r: "in_int32 2400" "in_int32 2200" "in_int32 200" "in_int32 (2400 - 2200)"
    "in_int32 (200 + (2400 - 2200))" "in_int32 2000" "in_int32 0" "in_int32 (2200 - 2000)"
    by (simp_all add: in_int32_def)
  have w: "spec_weighted_average exact (Fin 10) 200 (Fin 13) (2400 - 2200) = Fin (23 / 2)"
    by (simp add: spec_weighted_average_def double_of_int_def exact_def)
  have "total_time (next_price binary64 2400 (Fin 13) ?s) = 400"
    and "avg_price (next_price exact 2400 (Fin 13) ?s) = Fin (23 / 2)"
    using fold_step[of ?s 2400 binary64 "Fin 13"] w r by simp_all
  moreover have "avg_price (next_price binary64 2200 (Fin 13) ?init) = Fin 10"
    and "total_time (next_price binary64 2200 (Fin 13) ?init) = 200"
    using fold_step[of ?init 2200 binary64 "Fin 13"] r by simp_all
  ultimately show ?thesis using r by simp
qed

text \<open>
  The claim as stated fails in double arithmetic, where the source's expression
  \<open>avg / new * total + last / new * add\<close> rounds after each operation: the samples
  \<open>(0, 1.0)\<close> and \<open>(1, 1.0)\<close> leave the average 1 and the elapsed time 1, and the next call
  at time 6, with \<open>dt = 5\<close>, yields \<open>1 - 2^-53\<close>, while the claimed formula has the value 1
  (under the same rounding and in exact arithmetic). All times are in the range of \<open>int\<close>.
\<close>

theorem fold_step_counterexample:
  "feed binary64 [(0, Fin 1), (1, Fin 1)] TWAP =
     \<lparr>last_price = Fin 1, last_time = 1, avg_price = Fin 1, total_time = 1\<rparr> \<and>
   in_int32 6 \<and> in_int32 1 \<and> in_int32 (6 - 1) \<and> in_int32 (1 + (6 - 1)) \<and>
   avg_price (next_price binary64 6 (Fin 1)
       \<lparr>last_price = Fin 1, last_time = 1, avg_price = Fin 1, total_time = 1\<rparr>) =
     Fin (9007199254740991 / 9007199254740992) \<and>
   spec_weighted_average binary64 (Fin 1) 1 (Fin 1) (6 - 1) = Fin 1 \<and>
   spec_weighted_average exact (Fin 1) 1 (Fin 1) (6 - 1) = Fin 1"
  by code_simp

text \<open>
  Claim C5 (golden trace), as amended. Feeding a fresh accumulator the samples
  \<open>(1000, NaN)\<close>, \<open>(2000, 10.0)\<close>, \<open>(2200, 13.0)\<close>, \<open>(2400, 13.0)\<close>, \<open>(2500, 10.0)\<close>,
  \<open>(4000, NaN)\<close> gives, after each call, the averages NaN, NaN, 10, 11.5 and then, in exact
  arithmetic, 11.8 and 10.45; in double arithmetic the last two are the doubles printed as
  11.799999999999999 and 10.45.
\<close>

theorem golden_trace:
  "averages exact
     [(1000, NaN), (2000, Fin 10), (2200, Fin 13), (2400, Fin 13), (2500, Fin 10), (4000, NaN)]
     TWAP
   = [NaN, NaN, Fin 10, Fin (23 / 2), Fin (59 / 5), Fin (209 / 20)] \<and>
   averages binary64
     [(1000, NaN), (2000, Fin 10), (2200, Fin 13), (2400, Fin 13), (2500, Fin 10), (4000, NaN)]
     TWAP
   = [NaN, NaN, Fin 10, Fin (23 / 2), Fin (6642809450371481 / 562949953421312),
      Fin (2941413506626355 / 281474976710656)]"
  by code_simp

text \<open>The fourth average of the claim, 12.0, is not what the source computes.\<close>

theorem golden_trace_counterexample:
  "averages binary64
     [(1000, NaN), (2000, Fin 10), (2200, Fin 13), (2400, Fin 13), (2500, Fin 10), (4000, NaN)]
     TWAP ! 3 = Fin (23 / 2) \<and>
   averages exact
     [(1000, NaN), (2000, Fin 10), (2200, Fin 13), (2400, Fin 13), (2500, Fin 10), (4000, NaN)]
     TWAP ! 3 = Fin (23 / 2) \<and>
   Fin (23 / 2) \<noteq> Fin 12"
  by code_simp










end
